theory Spec2Isabelle
  imports Main "HOL-Library.Word"
begin

section \<open>Vectorized method calls through a jump table (enoki/vcall.h)\<close>

subsection \<open>Values and their trace-variable references\<close>

text \<open>
  A trace-variable reference is the \<^verbatim>\<open>uint32_t\<close> handle that a JIT array holds. The
  recorder never computes with a handle: it reads it, compares it with zero (the
  "uninitialized" sentinel) and hands it on, so handles are natural numbers here; so
  are the side-effect counts, which it reads from the backend and hands back.
  Counters on which the source does arithmetic (\<^verbatim>\<open>offset++\<close>, \<^verbatim>\<open>j++\<close>, \<^verbatim>\<open>++i\<close>,
  \<^verbatim>\<open>n_inst_actual + 1\<close>) are 32-bit words.
\<close>

type_synonym index = nat

datatype error =
    Uninitialized_Argument  \<comment> \<open>\<^verbatim>\<open>enoki_raise\<close> in \<^verbatim>\<open>collect_indices\<close>\<close>
  | Callback_Raised nat     \<comment> \<open>the exception, by its number, that the user's callback threw\<close>
  | Undefined_Behaviour     \<comment> \<open>an unchecked access outside a vector, a division by zero\<close>

text \<open>
  The source chooses a traversal by the static category of the type
  (\<^verbatim>\<open>if constexpr\<close>): an array of depth above one, a differentiable array, a JIT
  array, a structure with declared fields, anything else. A value of each category:
\<close>

datatype val =
    Nested "val list"   \<comment> \<open>\<^verbatim>\<open>array_depth_v<T> > 1\<close>: the entries \<^verbatim>\<open>entry(i)\<close>\<close>
  | Diff val            \<comment> \<open>\<^verbatim>\<open>is_diff_array_v<T>\<close>: what \<^verbatim>\<open>detach_()\<close> refers to\<close>
  | Jit index           \<comment> \<open>\<^verbatim>\<open>is_jit_array_v<T>\<close>: the handle \<^verbatim>\<open>index()\<close>\<close>
  | Struct "val list"   \<comment> \<open>\<^verbatim>\<open>is_enoki_struct_v<T>\<close>: the fields that \<^verbatim>\<open>apply_1\<close> visits\<close>
  | Other               \<comment> \<open>no branch applies: nothing is read or written\<close>

fun collect_indices :: "index list \<Rightarrow> val \<Rightarrow> error + index list"
  and collect_entries :: "index list \<Rightarrow> val list \<Rightarrow> error + index list" where
  "collect_indices indices (Nested vs) = collect_entries indices vs"
| "collect_indices indices (Diff v) = collect_indices indices v"
| "collect_indices indices (Jit index) =
     (if index = 0 then Inl Uninitialized_Argument else Inr (indices @ [index]))"
| "collect_indices indices (Struct fs) = collect_entries indices fs"
| "collect_indices indices Other = Inr indices"
| "collect_entries indices [] = Inr indices"
| "collect_entries indices (v # vs) =
     (case collect_indices indices v of
        Inl e \<Rightarrow> Inl e
      | Inr indices' \<Rightarrow> collect_entries indices' vs)"

text \<open>
  \<^verbatim>\<open>indices[offset++]\<close> reads an \<^verbatim>\<open>ek_vector\<close> without a bounds check; a read
  past the end is undefined behaviour and is an error of the model. The cursor is a
  \<^verbatim>\<open>uint32_t\<close> and wraps.
\<close>

fun write_indices :: "index list \<Rightarrow> val \<Rightarrow> 32 word \<Rightarrow> error + (val \<times> 32 word)"
  and write_entries :: "index list \<Rightarrow> val list \<Rightarrow> 32 word \<Rightarrow> error + (val list \<times> 32 word)" where
  "write_indices indices (Nested vs) offset =
     (case write_entries indices vs offset of
        Inl e \<Rightarrow> Inl e
      | Inr (vs', offset') \<Rightarrow> Inr (Nested vs', offset'))"
| "write_indices indices (Diff v) offset =
     (case write_indices indices v offset of
        Inl e \<Rightarrow> Inl e
      | Inr (v', offset') \<Rightarrow> Inr (Diff v', offset'))"
| "write_indices indices (Jit old) offset =
     (if unat offset < length indices
      then Inr (Jit (indices ! unat offset), offset + 1)
      else Inl Undefined_Behaviour)"
| "write_indices indices (Struct fs) offset =
     (case write_entries indices fs offset of
        Inl e \<Rightarrow> Inl e
      | Inr (fs', offset') \<Rightarrow> Inr (Struct fs', offset'))"
| "write_indices indices Other offset = Inr (Other, offset)"
| "write_entries indices [] offset = Inr ([], offset)"
| "write_entries indices (v # vs) offset =
     (case write_indices indices v offset of
        Inl e \<Rightarrow> Inl e
      | Inr (v', offset') \<Rightarrow>
          (case write_entries indices vs offset' of
             Inl e \<Rightarrow> Inl e
           | Inr (vs', offset'') \<Rightarrow> Inr (v' # vs', offset'')))"

text \<open>
  The freshly zero-initialized value of the same structure: every JIT leaf holds the
  zero handle, as a default-constructed JIT array does.
\<close>

fun blank :: "val \<Rightarrow> val" where
  "blank (Nested vs) = Nested (map blank vs)"
| "blank (Diff v) = Diff (blank v)"
| "blank (Jit index) = Jit 0"
| "blank (Struct fs) = Struct (map blank fs)"
| "blank Other = Other"

text \<open>The trace-backed leaves of a value, in traversal order, zero handles included.\<close>

fun leaf_refs :: "val \<Rightarrow> index list" where
  "leaf_refs (Nested vs) = concat (map leaf_refs vs)"
| "leaf_refs (Diff v) = leaf_refs v"
| "leaf_refs (Jit index) = [index]"
| "leaf_refs (Struct fs) = concat (map leaf_refs fs)"
| "leaf_refs Other = []"


subsection \<open>Static types\<close>

text \<open>
  \<^verbatim>\<open>Result\<close> is a template parameter. Its static structure fixes the number of entries
  of every array and the fields of every structure; \<^verbatim>\<open>std::nullptr_t\<close> stands for a
  callback without return value.
\<close>

datatype ty =
    TNested "ty list"
  | TDiff ty
  | TJit
  | TStruct "ty list"
  | TOther
  | TNullptr

fun has_type :: "ty \<Rightarrow> val \<Rightarrow> bool"
  and have_types :: "ty list \<Rightarrow> val list \<Rightarrow> bool" where
  "has_type (TNested ts) (Nested vs) = have_types ts vs"
| "has_type (TDiff t) (Diff v) = has_type t v"
| "has_type TJit (Jit index) = True"
| "has_type (TStruct ts) (Struct fs) = have_types ts fs"
| "has_type TOther Other = True"
| "has_type TNullptr Other = True"
| "has_type t v = False"
| "have_types [] [] = True"
| "have_types (t # ts) (v # vs) = (has_type t v \<and> have_types ts vs)"
| "have_types ts vs = False"

text \<open>The number of JIT leaves of a type.\<close>

fun count_leaves :: "ty \<Rightarrow> nat" where
  "count_leaves (TNested ts) = sum_list (map count_leaves ts)"
| "count_leaves (TDiff t) = count_leaves t"
| "count_leaves TJit = 1"
| "count_leaves (TStruct ts) = sum_list (map count_leaves ts)"
| "count_leaves TOther = 0"
| "count_leaves TNullptr = 0"

text \<open>\<^verbatim>\<open>Result result;\<close>: the default-constructed value, every JIT leaf with handle zero.\<close>

fun default_val :: "ty \<Rightarrow> val" where
  "default_val (TNested ts) = Nested (map default_val ts)"
| "default_val (TDiff t) = Diff (default_val t)"
| "default_val TJit = Jit 0"
| "default_val (TStruct ts) = Struct (map default_val ts)"
| "default_val TOther = Other"
| "default_val TNullptr = Other"

subsection \<open>The JIT backend\<close>

text \<open>
  The backend (\<^verbatim>\<open>enoki-jit\<close>) is not part of the sources at hand; only its calls are.
  Its state is modelled from the specification's list of what the backend exposes: the
  trace variables, the stack of diagnostic labels, the mask stack, the flag that
  postpones side effects, the log of scheduled side effects and the jump-table nodes.
  A variable is given by what its lanes evaluate to; a mask lane is true when it is not
  zero, a selector lane is null when it is zero.
\<close>

type_synonym lanes = "int list"

datatype jit_backend = CUDA | LLVM

record vcall_node =
  node_label :: string
  node_self :: index
  node_n_inst :: "32 word"
  node_in :: "index list"
  node_out_all :: "index list"
  node_se_count :: "nat list"
  node_n_out :: nat

record backend =
  variables :: "lanes list"
  prefix_stack :: "string list"
  mask_stack :: "index list"
  postpone_side_effects :: int
  side_effects :: "index list"
  vcall_nodes :: "vcall_node list"
  jump_table_lanes :: "vcall_node \<Rightarrow> nat \<Rightarrow> lanes"

text \<open>Modelled from the spec: the backend creates a reference; a new variable gets the
  next handle, and handle zero is never given out.\<close>

definition jit_var_new :: "lanes \<Rightarrow> backend \<Rightarrow> index \<times> backend" where
  "jit_var_new d b = (Suc (length (variables b)), b\<lparr>variables := variables b @ [d]\<rparr>)"

text \<open>Modelled from the spec: what the lanes of a reference evaluate to; the zero
  sentinel and unknown handles have no lanes.\<close>

definition var_lanes :: "backend \<Rightarrow> index \<Rightarrow> lanes" where
  "var_lanes b i = (if i = 0 \<or> length (variables b) < i then [] else variables b ! (i - 1))"

text \<open>Modelled from the spec: push a diagnostic label.\<close>

definition jit_prefix_push :: "string \<Rightarrow> backend \<Rightarrow> backend" where
  "jit_prefix_push label b = b\<lparr>prefix_stack := label # prefix_stack b\<rparr>"

text \<open>Modelled from the spec: pop a diagnostic label.\<close>

definition jit_prefix_pop :: "backend \<Rightarrow> backend" where
  "jit_prefix_pop b = b\<lparr>prefix_stack := tl (prefix_stack b)\<rparr>"

text \<open>Modelled from the spec: query the global "postpone side effects" flag.\<close>

definition jit_flag :: "backend \<Rightarrow> int" where
  "jit_flag b = postpone_side_effects b"

text \<open>Modelled from the spec: set the global "postpone side effects" flag.\<close>

definition jit_set_flag :: "int \<Rightarrow> backend \<Rightarrow> backend" where
  "jit_set_flag v b = b\<lparr>postpone_side_effects := v\<rparr>"

text \<open>Modelled from the spec: the statement variable of the synthesized always-true
  mask (\<^verbatim>\<open>or <$w x i1> %mask, zeroinitializer\<close>), one lane that broadcasts.\<close>

definition jit_var_new_stmt :: "backend \<Rightarrow> index \<times> backend" where
  "jit_var_new_stmt b = jit_var_new [1] b"

text \<open>Modelled from the spec: push a boolean mask (mask-stack backends).\<close>

definition jit_var_mask_push :: "index \<Rightarrow> backend \<Rightarrow> backend" where
  "jit_var_mask_push m b = b\<lparr>mask_stack := m # mask_stack b\<rparr>"

text \<open>Modelled from the spec: pop a boolean mask (mask-stack backends).\<close>

definition jit_var_mask_pop :: "backend \<Rightarrow> backend" where
  "jit_var_mask_pop b = b\<lparr>mask_stack := tl (mask_stack b)\<rparr>"

text \<open>Modelled from the spec: peek the currently active external mask, if any; without
  one the mask is an all-true literal.\<close>

definition jit_var_mask_peek :: "backend \<Rightarrow> index \<times> backend" where
  "jit_var_mask_peek b =
     (case mask_stack b of [] \<Rightarrow> jit_var_new [1] b | m # ms \<Rightarrow> (m, b))"

text \<open>Modelled from the spec: the current count of scheduled side effects.\<close>

definition jit_side_effects_scheduled :: "backend \<Rightarrow> nat" where
  "jit_side_effects_scheduled b = length (side_effects b)"

text \<open>Modelled from the spec: roll the side-effect log back to a prior count.\<close>

definition jit_side_effects_rollback :: "nat \<Rightarrow> backend \<Rightarrow> backend" where
  "jit_side_effects_rollback n b = b\<lparr>side_effects := take n (side_effects b)\<rparr>"

text \<open>Modelled from the spec: construct a jump-table node from the label, the selector
  reference, the implementation count, the input references, the output references and
  the side-effect counts, producing one reference per output slot. The caller's buffer
  \<^verbatim>\<open>indices_out\<close> fixes the number of slots; what a slot's lanes evaluate to is the
  backend's business (\<open>jump_table_lanes\<close>).\<close>

definition jit_var_vcall ::
  "string \<Rightarrow> index \<Rightarrow> 32 word \<Rightarrow> index list \<Rightarrow> index list \<Rightarrow> nat list \<Rightarrow> index list \<Rightarrow>
     backend \<Rightarrow> index list \<times> backend" where
  "jit_var_vcall label self n_inst indices_in indices_out_all se_count indices_out b =
     (let node = \<lparr>node_label = label, node_self = self, node_n_inst = n_inst,
                   node_in = indices_in, node_out_all = indices_out_all,
                   node_se_count = se_count, node_n_out = length indices_out\<rparr>;
          first = Suc (length (variables b))
      in (map (\<lambda>k. first + k) [0..<length indices_out],
          b\<lparr>variables := variables b @
                 map (jump_table_lanes b node) [0..<length indices_out],
            vcall_nodes := vcall_nodes b @ [node]\<rparr>))"

subsection \<open>Array operations on JIT values\<close>

text \<open>Modelled from the spec: reading a lane, where an array of one lane broadcasts.\<close>

definition lane_at :: "lanes \<Rightarrow> nat \<Rightarrow> int" where
  "lane_at xs i = (if length xs = 1 then xs ! 0 else if i < length xs then xs ! i else 0)"

text \<open>Modelled from the spec: "selector is non-null", per lane (\<^verbatim>\<open>neq(self, nullptr)\<close>).\<close>

definition neq_nullptr :: "index \<Rightarrow> backend \<Rightarrow> index \<times> backend" where
  "neq_nullptr self b =
     jit_var_new (map (\<lambda>x. if x \<noteq> 0 then 1 else 0) (var_lanes b self)) b"

text \<open>Modelled from the spec: the logical AND of two masks, per lane
  (\<^verbatim>\<open>&&\<close> and \<^verbatim>\<open>&\<close> on masks).\<close>

definition mask_and :: "index \<Rightarrow> index \<Rightarrow> backend \<Rightarrow> index \<times> backend" where
  "mask_and x y b =
     jit_var_new
       (map (\<lambda>i. if lane_at (var_lanes b x) i \<noteq> 0 \<and> lane_at (var_lanes b y) i \<noteq> 0
                 then 1 else 0)
          [0..<max (length (var_lanes b x)) (length (var_lanes b y))]) b"

text \<open>Modelled from the spec: the selector combined with a mask by AND
  (\<^verbatim>\<open>self & mask\<close>): a lane whose mask is false becomes null.\<close>

definition self_and :: "index \<Rightarrow> index \<Rightarrow> backend \<Rightarrow> index \<times> backend" where
  "self_and self m b =
     jit_var_new
       (map (\<lambda>i. if lane_at (var_lanes b m) i \<noteq> 0 then lane_at (var_lanes b self) i else 0)
          [0..<max (length (var_lanes b self)) (length (var_lanes b m))]) b"

text \<open>Modelled from the spec: a zero-filled result of a given lane count
  (\<^verbatim>\<open>zero<Result>(size)\<close>); every JIT leaf is a new variable of that many zero lanes.\<close>

fun zero_val :: "ty \<Rightarrow> nat \<Rightarrow> backend \<Rightarrow> val \<times> backend"
  and zero_entries :: "ty list \<Rightarrow> nat \<Rightarrow> backend \<Rightarrow> val list \<times> backend" where
  "zero_val (TNested ts) n b = (case zero_entries ts n b of (vs, b') \<Rightarrow> (Nested vs, b'))"
| "zero_val (TDiff t) n b = (case zero_val t n b of (v, b') \<Rightarrow> (Diff v, b'))"
| "zero_val TJit n b = (case jit_var_new (replicate n 0) b of (i, b') \<Rightarrow> (Jit i, b'))"
| "zero_val (TStruct ts) n b = (case zero_entries ts n b of (fs, b') \<Rightarrow> (Struct fs, b'))"
| "zero_val TOther n b = (Other, b)"
| "zero_val TNullptr n b = (Other, b)"
| "zero_entries [] n b = ([], b)"
| "zero_entries (t # ts) n b =
     (case zero_val t n b of (v, b') \<Rightarrow>
        (case zero_entries ts n b' of (vs, b'') \<Rightarrow> (v # vs, b'')))"

text \<open>Modelled from the spec: select between two values with a mask as the per-lane
  selector (\<^verbatim>\<open>select(mask, a, b)\<close>), leaf by leaf. The two values have the same static
  type in the source; the last equations only make the function total.\<close>

fun select :: "index \<Rightarrow> val \<Rightarrow> val \<Rightarrow> backend \<Rightarrow> val \<times> backend"
  and select_entries :: "index \<Rightarrow> val list \<Rightarrow> val list \<Rightarrow> backend \<Rightarrow> val list \<times> backend" where
  "select m (Nested xs) (Nested ys) b =
     (case select_entries m xs ys b of (vs, b') \<Rightarrow> (Nested vs, b'))"
| "select m (Diff x) (Diff y) b = (case select m x y b of (v, b') \<Rightarrow> (Diff v, b'))"
| "select m (Jit x) (Jit y) b =
     (case jit_var_new
             (map (\<lambda>i. if lane_at (var_lanes b m) i \<noteq> 0 then lane_at (var_lanes b x) i
                       else lane_at (var_lanes b y) i)
                [0..<max (length (var_lanes b m))
                         (max (length (var_lanes b x)) (length (var_lanes b y)))]) b
      of (i, b') \<Rightarrow> (Jit i, b'))"
| "select m (Struct xs) (Struct ys) b =
     (case select_entries m xs ys b of (fs, b') \<Rightarrow> (Struct fs, b'))"
| "select m x y b = (x, b)"
| "select_entries m (x # xs) (y # ys) b =
     (case select m x y b of (v, b') \<Rightarrow>
        (case select_entries m xs ys b' of (vs, b'') \<Rightarrow> (v # vs, b'')))"
| "select_entries m xs ys b = ([], b)"


subsection \<open>Registry, callbacks and template parameters\<close>

text \<open>Modelled from the spec: the instance registry of the call's domain, with
  \<open>max_id\<close> and \<open>lookup\<close>; the null pointer is 0.\<close>

type_synonym ptr = nat

record registry =
  jit_registry_get_max :: "32 word"
  jit_registry_get_ptr :: "32 word \<Rightarrow> ptr"

text \<open>
  The user's callback \<^verbatim>\<open>func\<close> records one implementation's computation: it reads and
  changes the backend and returns a value (\<open>Inr\<close>) or throws an exception (\<open>Inl\<close>,
  with a number that tells exceptions apart). An exception does not undo what the
  callback did to the backend before it was thrown.
\<close>

type_synonym callback = "ptr \<Rightarrow> val list \<Rightarrow> backend \<Rightarrow> (nat + val) \<times> backend"

text \<open>
  The state of a call: the backend, and the invocations of the callback so far (the
  instance pointer and the arguments of each), kept to state what the callback was
  invoked with.
\<close>

record world =
  jit :: backend
  calls :: "(ptr \<times> val list) list"

definition invoke :: "callback \<Rightarrow> ptr \<Rightarrow> val list \<Rightarrow> world \<Rightarrow> (nat + val) \<times> world" where
  "invoke func inst args w =
     (case func inst args (jit w) of
        (r, b') \<Rightarrow> (r, w\<lparr>jit := b', calls := calls w @ [(inst, args)]\<rparr>))"

text \<open>
  The first argument of \<^verbatim>\<open>set_mask<I, N>\<close> is a mask array in the fast path and the
  literal \<^verbatim>\<open>true\<close> in the recorder.
\<close>

datatype mask_arg = Mask_Array index | Mask_Bool bool

text \<open>
  The template parameters of a call site (\<^verbatim>\<open>Backend\<close>, \<^verbatim>\<open>Base::Domain\<close>, \<^verbatim>\<open>Result\<close>)
  and the helpers \<^verbatim>\<open>set_mask<I, N>\<close>, \<^verbatim>\<open>extract_mask\<close> and \<^verbatim>\<open>placeholder\<close>, whose
  definitions are not part of the sources at hand and are parameters.
\<close>

record config =
  cfg_backend :: jit_backend
  cfg_domain :: string
  cfg_result :: ty
  set_mask :: "nat \<Rightarrow> nat \<Rightarrow> mask_arg \<Rightarrow> val \<Rightarrow> val"
  extract_mask :: "val list \<Rightarrow> index"
  placeholder :: "val \<Rightarrow> val"

text \<open>\<^verbatim>\<open>(set_mask<Is, N>(mask, args))...\<close> with \<^verbatim>\<open>Is = 0, ..., N - 1\<close>.\<close>

definition set_masks :: "config \<Rightarrow> mask_arg \<Rightarrow> val list \<Rightarrow> val list" where
  "set_masks cfg m args =
     map (\<lambda>i. set_mask cfg i (length args) m (args ! i)) [0..<length args]"

subsection \<open>The single-instance fast path\<close>

text \<open>
  The branch \<^verbatim>\<open>n_inst_actual == 1\<close> of \<^verbatim>\<open>vcall_jit_record_impl\<close>. C++ leaves the
  order in which the arguments of \<^verbatim>\<open>select\<close> are evaluated open; here the callback runs
  before \<^verbatim>\<open>zero<Result>()\<close>. Without return value, \<^verbatim>\<open>result\<close> stays as constructed.
\<close>

definition fast_path ::
  "config \<Rightarrow> ptr \<Rightarrow> callback \<Rightarrow> index \<Rightarrow> index \<Rightarrow> val list \<Rightarrow> world \<Rightarrow> (error + val) \<times> world" where
  "fast_path cfg inst func self mask1 args w =
     (case neq_nullptr self (jit w) of (nn, b1) \<Rightarrow>
      case mask_and mask1 nn b1 of (mask2, b2) \<Rightarrow>
      case invoke func inst (set_masks cfg (Mask_Array mask2) args) (w\<lparr>jit := b2\<rparr>) of
        (Inl n, w1) \<Rightarrow> (Inl (Callback_Raised n), w1)
      | (Inr v, w1) \<Rightarrow>
          if cfg_result cfg = TNullptr then (Inr (default_val (cfg_result cfg)), w1)
          else (case zero_val (cfg_result cfg) 1 (jit w1) of (z, b3) \<Rightarrow>
                case select mask2 v z b3 of (result, b4) \<Rightarrow> (Inr result, w1\<lparr>jit := b4\<rparr>)))"

subsection \<open>The multi-instance recorder\<close>

fun show_nat :: "nat \<Rightarrow> string" where
  "show_nat n =
     (if n < 10 then [''0123456789'' ! n]
      else show_nat (n div 10) @ [''0123456789'' ! (n mod 10)])"

text \<open>\<^verbatim>\<open>snprintf\<close> into \<^verbatim>\<open>char label[128]\<close> keeps at most 127 characters.\<close>

definition instance_label :: "config \<Rightarrow> string \<Rightarrow> 32 word \<Rightarrow> string" where
  "instance_label cfg name j =
     take 127 (''VCall: '' @ cfg_domain cfg @ ''::'' @ name @ ''() [instance ''
               @ show_nat (unat j) @ '']'')"

definition call_label :: "config \<Rightarrow> string \<Rightarrow> string" where
  "call_label cfg name = take 127 (cfg_domain cfg @ ''::'' @ name @ ''()'')"

text \<open>The variables of the loop: the running count \<^verbatim>\<open>j\<close>, \<^verbatim>\<open>indices_out_all\<close> and
  \<^verbatim>\<open>se_count\<close>, with the state of the call.\<close>

record rec_state =
  rs_world :: world
  rs_j :: "32 word"
  rs_out_all :: "index list"
  rs_se_count :: "nat list"

text \<open>
  One iteration of the loop for a live instance \<^verbatim>\<open>base\<close>: the \<^verbatim>\<open>try\<close> block, the
  \<^verbatim>\<open>catch (...)\<close> handler (the left result: the exception that is thrown again, and the
  state it leaves) and the code after it. \<^verbatim>\<open>se_count[j++]\<close> is an unchecked write.
\<close>

definition record_instance ::
  "config \<Rightarrow> string \<Rightarrow> callback \<Rightarrow> val list \<Rightarrow> ptr \<Rightarrow> rec_state \<Rightarrow> (error \<times> world) + rec_state" where
  "record_instance cfg name func args base st =
     (let w = rs_world st;
          b1 = jit_prefix_push (instance_label cfg name (rs_j st)) (jit w);
          flag_before = jit_flag b1;
          b2 = jit_set_flag 1 b1;
          b3 = (if cfg_backend cfg = LLVM
                then (case jit_var_new_stmt b2 of (vcall_mask, b) \<Rightarrow> jit_var_mask_push vcall_mask b)
                else b2);
          (r, w4) = (if cfg_result cfg = TNullptr
                     then invoke func base (set_masks cfg (Mask_Bool True) args) (w\<lparr>jit := b3\<rparr>)
                     else invoke func base args (w\<lparr>jit := b3\<rparr>));
          collected = (case r of
                         Inl n \<Rightarrow> Inl (Callback_Raised n)
                       | Inr tmp \<Rightarrow> if cfg_result cfg = TNullptr then Inr (rs_out_all st)
                                    else collect_indices (rs_out_all st) tmp)
      in case collected of
           Inl e \<Rightarrow>
             (let c1 = jit_prefix_pop (jit w4);
                  c2 = jit_side_effects_rollback (rs_se_count st ! 0) c1;
                  c3 = jit_set_flag flag_before c2;
                  c4 = (if cfg_backend cfg = LLVM then jit_var_mask_pop c3 else c3)
              in Inl (e, w4\<lparr>jit := c4\<rparr>))
         | Inr indices_out_all \<Rightarrow>
             (let b5 = jit_set_flag flag_before (jit w4);
                  b6 = jit_prefix_pop b5;
                  b7 = (if cfg_backend cfg = LLVM then jit_var_mask_pop b6 else b6)
              in if unat (rs_j st) < length (rs_se_count st)
                 then Inr \<lparr>rs_world = w4\<lparr>jit := b7\<rparr>, rs_j = rs_j st + 1,
                           rs_out_all = indices_out_all,
                           rs_se_count = (rs_se_count st)
                               [unat (rs_j st) := jit_side_effects_scheduled b7]\<rparr>
                 else Inl (Undefined_Behaviour, w4\<lparr>jit := b7\<rparr>)))"

text \<open>
  \<^verbatim>\<open>for (uint32_t i = 1, j = 1; i <= n_inst_max; ++i)\<close>: the counter wraps, so the
  loop does not end when \<^verbatim>\<open>n_inst_max\<close> is the largest 32-bit number; not returning
  is \<open>None\<close>.
\<close>

partial_function (option) record_loop ::
  "config \<Rightarrow> registry \<Rightarrow> string \<Rightarrow> callback \<Rightarrow> val list \<Rightarrow> 32 word \<Rightarrow> 32 word \<Rightarrow> rec_state \<Rightarrow>
     ((error \<times> world) + rec_state) option" where
  "record_loop cfg reg name func args n_inst_max i st =
     (if i \<le> n_inst_max
      then (if jit_registry_get_ptr reg i = 0
            then record_loop cfg reg name func args n_inst_max (i + 1) st
            else (case record_instance cfg name func args (jit_registry_get_ptr reg i) st of
                    Inl failure \<Rightarrow> Some (Inl failure)
                  | Inr st' \<Rightarrow> record_loop cfg reg name func args n_inst_max (i + 1) st'))
      else Some (Inr st))"

declare record_loop.simps [code]

text \<open>
  After the loop: the output buffer, the masked selector, the jump-table node and the
  write-back of the backend's references. \<^verbatim>\<open>size() / n_inst_actual\<close> divides by zero
  when \<^verbatim>\<open>n_inst_actual\<close> is zero.
\<close>

definition record_jump_table ::
  "config \<Rightarrow> string \<Rightarrow> 32 word \<Rightarrow> index \<Rightarrow> index \<Rightarrow> index list \<Rightarrow> rec_state \<Rightarrow> (error + val) \<times> world" where
  "record_jump_table cfg name n_inst_actual self mask1 indices_in st =
     (let w = rs_world st;
          indices_out_all = rs_out_all st
      in if n_inst_actual = 0 then (Inl Undefined_Behaviour, w)
         else
          (let indices_out = replicate (length indices_out_all div unat n_inst_actual) 0 in
           case jit_var_mask_peek (jit w) of (peek, b1) \<Rightarrow>
           case mask_and peek mask1 b1 of (m, b2) \<Rightarrow>
           case self_and self m b2 of (self_masked, b3) \<Rightarrow>
           case jit_var_vcall (call_label cfg name) self_masked n_inst_actual indices_in
                  indices_out_all (rs_se_count st) indices_out b3 of (indices_out', b4) \<Rightarrow>
             if cfg_result cfg = TNullptr
             then (Inr (default_val (cfg_result cfg)), w\<lparr>jit := b4\<rparr>)
             else (case write_indices indices_out' (default_val (cfg_result cfg)) 0 of
                     Inl e \<Rightarrow> (Inl e, w\<lparr>jit := b4\<rparr>)
                   | Inr (result, offset) \<Rightarrow> (Inr result, w\<lparr>jit := b4\<rparr>))))"

text \<open>
  The state in which the loop starts: \<^verbatim>\<open>j = 1\<close>, nothing collected,
  \<^verbatim>\<open>ek_vector<uint32_t> se_count(n_inst_actual + 1, 0)\<close> and
  \<^verbatim>\<open>se_count[0] = jit_side_effects_scheduled(Backend)\<close>.
\<close>

definition initial_state :: "32 word \<Rightarrow> world \<Rightarrow> rec_state" where
  "initial_state n_inst_actual w =
     \<lparr>rs_world = w, rs_j = 1, rs_out_all = [],
      rs_se_count = (replicate (unat (n_inst_actual + 1)) 0)
                      [0 := jit_side_effects_scheduled (jit w)]\<rparr>"

text \<open>
  \<^verbatim>\<open>vcall_jit_record_impl\<close>. The fold \<^verbatim>\<open>(collect_indices(indices_in, args), ...)\<close>
  visits the arguments from left to right, which is \<open>collect_entries\<close>.
  \<^verbatim>\<open>se_count\<close> has \<^verbatim>\<open>n_inst_actual + 1\<close> entries, computed in 32 bits; when that
  is zero, \<^verbatim>\<open>se_count[0]\<close> is outside the vector.
\<close>

definition vcall_jit_record_impl ::
  "config \<Rightarrow> registry \<Rightarrow> string \<Rightarrow> 32 word \<Rightarrow> 32 word \<Rightarrow> ptr \<Rightarrow> callback \<Rightarrow> index \<Rightarrow> index \<Rightarrow>
     val list \<Rightarrow> world \<Rightarrow> ((error + val) \<times> world) option" where
  "vcall_jit_record_impl cfg reg name n_inst_max n_inst_actual inst func self mask1 args w =
     (if n_inst_actual = 1 then Some (fast_path cfg inst func self mask1 args w)
      else
        (case collect_entries [] args of
           Inl e \<Rightarrow> Some (Inl e, w)
         | Inr indices_in \<Rightarrow>
             if unat (n_inst_actual + 1) = 0 then Some (Inl Undefined_Behaviour, w)
             else
               (case record_loop cfg reg name func args n_inst_max 1
                       (initial_state n_inst_actual w) of
                  None \<Rightarrow> None
                | Some (Inl (e, w')) \<Rightarrow> Some (Inl e, w')
                | Some (Inr st) \<Rightarrow>
                    Some (record_jump_table cfg name n_inst_actual self mask1 indices_in st))))"

subsection \<open>The call driver\<close>

text \<open>The scan of the registry: \<^verbatim>\<open>inst\<close> and \<^verbatim>\<open>n_inst_actual\<close> after the loop.\<close>

partial_function (option) scan_registry ::
  "registry \<Rightarrow> 32 word \<Rightarrow> 32 word \<Rightarrow> ptr \<Rightarrow> 32 word \<Rightarrow> (ptr \<times> 32 word) option" where
  "scan_registry reg n_inst_max i inst n_inst_actual =
     (if i \<le> n_inst_max
      then (if jit_registry_get_ptr reg i = 0
            then scan_registry reg n_inst_max (i + 1) inst n_inst_actual
            else scan_registry reg n_inst_max (i + 1) (jit_registry_get_ptr reg i)
                   (n_inst_actual + 1))
      else Some (inst, n_inst_actual))"

declare scan_registry.simps [code]

definition vcall_jit_record ::
  "config \<Rightarrow> registry \<Rightarrow> string \<Rightarrow> callback \<Rightarrow> index \<Rightarrow> val list \<Rightarrow> world \<Rightarrow>
     ((error + val) \<times> world) option" where
  "vcall_jit_record cfg reg name func self args w =
     (case scan_registry reg (jit_registry_get_max reg) 1 0 0 of
        None \<Rightarrow> None
      | Some (inst, n_inst_actual) \<Rightarrow>
          (let self_size = length (var_lanes (jit w) self)
           in if n_inst_actual = 0 \<or> self_size = 0
              then (case zero_val (cfg_result cfg) self_size (jit w) of
                      (z, b) \<Rightarrow> Some (Inr z, w\<lparr>jit := b\<rparr>))
              else vcall_jit_record_impl cfg reg name (jit_registry_get_max reg) n_inst_actual
                     inst func self (extract_mask cfg args) (map (placeholder cfg) args) w))"


subsection \<open>The loops, unrolled\<close>

text \<open>The live instances with ids from \<open>i\<close> to \<open>n\<close>, in ascending order of id.\<close>

definition live_ptrs :: "registry \<Rightarrow> nat \<Rightarrow> nat \<Rightarrow> ptr list" where
  "live_ptrs reg i n =
     filter (\<lambda>base. base \<noteq> 0) (map (\<lambda>k. jit_registry_get_ptr reg (of_nat k)) [i..<Suc n])"

text \<open>The iterations of the recorder's loop for a list of live instances, one after the
  other, until one of them fails.\<close>

fun record_all ::
  "config \<Rightarrow> string \<Rightarrow> callback \<Rightarrow> val list \<Rightarrow> ptr list \<Rightarrow> rec_state \<Rightarrow> (error \<times> world) + rec_state" where
  "record_all cfg name func args [] st = Inr st"
| "record_all cfg name func args (base # bases) st =
     (case record_instance cfg name func args base st of
        Inl failure \<Rightarrow> Inl failure
      | Inr st' \<Rightarrow> record_all cfg name func args bases st')"

subsection \<open>What a recording callback does to the backend\<close>


definition only_schedules :: "callback \<Rightarrow> bool" where
  "only_schedules func \<longleftrightarrow>
     (\<forall>inst args b.
        take (length (side_effects b)) (side_effects (snd (func inst args b))) = side_effects b)"


text \<open>The callback's return value has the static type \<^verbatim>\<open>Result\<close>.\<close>

definition returns_type :: "ty \<Rightarrow> callback \<Rightarrow> bool" where
  "returns_type t func \<longleftrightarrow>
     (\<forall>inst args b v. fst (func inst args b) = Inr v \<longrightarrow> has_type t v)"

subsection \<open>A call site to evaluate\<close>

text \<open>
  A backend with a selector of four lanes (variable 1, the third lane null), a mask
  (variable 2, the last lane false), data (variable 3) and four zero lanes (variable 4,
  a selector that is null or a mask that is false in every lane); a registry of five ids with
  live instances at ids 1, 2 and 4, one with a single live instance and an empty one; a \<^verbatim>\<open>set_mask\<close> that replaces the last argument by the
  mask; callbacks that create one variable and schedule one side effect (one of them
  throws for the instance 40, one returns an uninitialized array for the instance 20).
\<close>

definition ex_backend :: backend where
  "ex_backend =
     \<lparr>variables = [[1, 2, 0, 4], [1, 1, 1, 0], [5, 6, 7, 8], [0, 0, 0, 0]], prefix_stack = [],
      mask_stack = [], postpone_side_effects = 0, side_effects = [3], vcall_nodes = [],
      jump_table_lanes = (\<lambda>node k. [])\<rparr>"

definition ex_world :: world where
  "ex_world = \<lparr>jit = ex_backend, calls = []\<rparr>"

definition ex_registry :: registry where
  "ex_registry =
     \<lparr>jit_registry_get_max = 5,
      jit_registry_get_ptr =
        (\<lambda>i. if i = 1 then 10 else if i = 2 then 20 else if i = 4 then 40 else 0)\<rparr>"

definition ex_single :: registry where
  "ex_single =
     \<lparr>jit_registry_get_max = 3, jit_registry_get_ptr = (\<lambda>i. if i = 2 then 20 else 0)\<rparr>"

definition ex_empty :: registry where
  "ex_empty = \<lparr>jit_registry_get_max = 3, jit_registry_get_ptr = (\<lambda>i. 0)\<rparr>"

definition ex_config :: "jit_backend \<Rightarrow> ty \<Rightarrow> config" where
  "ex_config backend result =
     \<lparr>cfg_backend = backend, cfg_domain = ''Base'', cfg_result = result,
      set_mask = (\<lambda>i n m v. if Suc i = n
                             then (case m of Mask_Array k \<Rightarrow> Jit k | Mask_Bool b \<Rightarrow> Other)
                             else v),
      extract_mask = (\<lambda>args. case last args of Jit k \<Rightarrow> k | _ \<Rightarrow> 0),
      placeholder = (\<lambda>v. v)\<rparr>"

definition ex_func :: callback where
  "ex_func inst args b =
     (Inr (Jit (Suc (length (variables b)))),
      b\<lparr>variables := variables b @ [replicate 4 (int inst)],
        side_effects := side_effects b @ [Suc (length (variables b))]\<rparr>)"



section \<open>Properties\<close>

subsection \<open>Collector and writer\<close>

text \<open>The collector fails exactly on a zero handle and otherwise appends the leaves.\<close>

lemma collect_closed:
  "collect_indices acc v =
     (if 0 \<in> set (leaf_refs v) then Inl Uninitialized_Argument else Inr (acc @ leaf_refs v))"
  "collect_entries acc vs =
     (if 0 \<in> set (concat (map leaf_refs vs)) then Inl Uninitialized_Argument
      else Inr (acc @ concat (map leaf_refs vs)))"
  by (induction acc v and acc vs rule: collect_indices_collect_entries.induct) auto

lemma unat_add_of_nat32:
  "unat (off :: 32 word) + n < 2 ^ 32 \<Longrightarrow> unat (off + of_nat n) = unat off + n"
  by (simp add: unat_word_ariths unat_of_nat take_bit_nat_eq_self)

lemma write_entries_closed:
  assumes each: "\<And>v pre post off. v \<in> set vs \<Longrightarrow> length pre = unat off \<Longrightarrow>
        unat off + length (leaf_refs v) < 2 ^ 32 \<Longrightarrow>
        write_indices (pre @ leaf_refs v @ post) (blank v) off =
          Inr (v, off + of_nat (length (leaf_refs v)))"
    and "length pre = unat off"
    and "unat off + length (concat (map leaf_refs vs)) < 2 ^ 32"
  shows "write_entries (pre @ concat (map leaf_refs vs) @ post) (map blank vs) off =
       Inr (vs, off + of_nat (length (concat (map leaf_refs vs))))"
  using assms
proof (induction vs arbitrary: pre post off)
  case Nil
  then show ?case by simp
next
  case (Cons v vs)
  let ?a = "leaf_refs v" and ?b = "concat (map leaf_refs vs)"
  from Cons.prems(3) have b1: "unat off + length ?a < 2 ^ 32" by simp
  have s1: "write_indices (pre @ ?a @ (?b @ post)) (blank v) off =
      Inr (v, off + of_nat (length ?a))"
    using Cons.prems(1)[of v pre off "?b @ post"] Cons.prems(2) b1 by simp
  have u: "unat (off + of_nat (length ?a)) = unat off + length ?a"
    using b1 by (rule unat_add_of_nat32)
  have l2: "length (pre @ ?a) = unat (off + of_nat (length ?a))"
    using Cons.prems(2) u by simp
  have b2: "unat (off + of_nat (length ?a)) + length ?b < 2 ^ 32"
    using Cons.prems(3) u by simp
  have s2: "write_entries ((pre @ ?a) @ ?b @ post) (map blank vs) (off + of_nat (length ?a)) =
      Inr (vs, off + of_nat (length ?a) + of_nat (length ?b))"
    using Cons.IH[OF _ l2 b2] Cons.prems(1) by simp
  show ?case using s1 s2 by (simp add: add.assoc)
qed

lemma write_indices_closed:
  "length pre = unat off \<Longrightarrow> unat off + length (leaf_refs v) < 2 ^ 32 \<Longrightarrow>
     write_indices (pre @ leaf_refs v @ post) (blank v) off =
       Inr (v, off + of_nat (length (leaf_refs v)))"
proof (induction v arbitrary: pre post off)
  case (Nested vs)
  have "write_entries (pre @ concat (map leaf_refs vs) @ post) (map blank vs) off =
      Inr (vs, off + of_nat (length (concat (map leaf_refs vs))))"
  proof (rule write_entries_closed)
    show "length pre = unat off" by (rule Nested.prems(1))
    show "unat off + length (concat (map leaf_refs vs)) < 2 ^ 32"
      using Nested.prems(2) by simp
  qed (rule Nested.IH)
  then show ?case by simp
next
  case (Diff v)
  then show ?case by simp
next
  case (Jit i)
  then show ?case by (simp add: nth_append)
next
  case (Struct fs)
  have "write_entries (pre @ concat (map leaf_refs fs) @ post) (map blank fs) off =
      Inr (fs, off + of_nat (length (concat (map leaf_refs fs))))"
  proof (rule write_entries_closed)
    show "length pre = unat off" by (rule Struct.prems(1))
    show "unat off + length (concat (map leaf_refs fs)) < 2 ^ 32"
      using Struct.prems(2) by simp
  qed (rule Struct.IH)
  then show ?case by simp
next
  case Other
  then show ?case by simp
qed

text \<open>
  C6. Round trip: when the collector succeeds on a value and yields a list of fewer than
  \<open>2 ^ 32\<close> references (the cursor is a 32-bit counter), writing that list from cursor 0
  into the zero-initialized value of the same structure gives the original value back,
  every reference in its leaf position, and the cursor ends exactly at the length of the
  list.
\<close>

theorem collect_write_roundtrip:
  assumes "collect_indices [] v = Inr cs" and "length cs < 2 ^ 32"
  shows "\<exists>offset. write_indices cs (blank v) 0 = Inr (v, offset) \<and> unat offset = length cs"
proof -
  from assms(1) have cs: "cs = leaf_refs v"
    by (simp add: collect_closed split: if_splits)
  have "write_indices ([] @ leaf_refs v @ []) (blank v) 0 =
      Inr (v, 0 + of_nat (length (leaf_refs v)))"
    by (rule write_indices_closed) (use assms(2) cs in simp_all)
  moreover have "unat (of_nat (length cs) :: 32 word) = length cs"
    using assms(2) by (simp add: unat_of_nat take_bit_nat_eq_self)
  ultimately show ?thesis using cs by simp
qed

theorem collect_write_roundtrip_witness:
  "collect_indices [] (Struct [Jit 5, Other, Nested [Jit 7, Diff (Jit 9)]]) = Inr [5, 7, 9]
   \<and> length [5, 7, 9 :: nat] < 2 ^ 32
   \<and> (\<exists>offset. write_indices [5, 7, 9]
         (blank (Struct [Jit 5, Other, Nested [Jit 7, Diff (Jit 9)]])) 0 =
           Inr (Struct [Jit 5, Other, Nested [Jit 7, Diff (Jit 9)]], offset)
         \<and> unat offset = length [5, 7, 9 :: nat])"
  using collect_write_roundtrip [of "Struct [Jit 5, Other, Nested [Jit 7, Diff (Jit 9)]]" "[5, 7, 9]"]
  by simp

subsection \<open>The loops\<close>

text \<open>
  A loop over the ids \<open>i, ..., n_inst_max\<close> returns when \<open>n_inst_max\<close> is not the largest
  32-bit number, and then does what the unrolled loop over the live instances does.
\<close>

lemma not_max_unat:
  assumes "(n :: 32 word) \<noteq> - 1"
  shows "unat n < 2 ^ 32 - 1"
proof (rule ccontr)
  assume "\<not> unat n < 2 ^ 32 - 1"
  moreover have "unat n < 2 ^ 32" using unsigned_less[of n, where ?'a = nat] by simp
  ultimately have "unat n = 2 ^ 32 - 1" by simp
  then have "of_nat (unat n) = (of_nat (2 ^ 32 - 1) :: 32 word)" by simp
  then have "n = - 1" by simp
  with assms show False ..
qed

lemma word32_succ:
  "unat (i :: 32 word) \<le> unat (n :: 32 word) \<Longrightarrow> n \<noteq> - 1 \<Longrightarrow> unat (i + 1) = Suc (unat i)"
  using not_max_unat[of n] by (simp add: unat_word_ariths)

lemma live_ptrs_step:
  "i \<le> n \<Longrightarrow> live_ptrs reg i n =
     (if jit_registry_get_ptr reg (of_nat i) = 0 then [] else [jit_registry_get_ptr reg (of_nat i)])
       @ live_ptrs reg (Suc i) n"
  unfolding live_ptrs_def by (subst upt_conv_Cons) auto

lemma live_ptrs_done: "n < i \<Longrightarrow> live_ptrs reg i n = []"
  by (simp add: live_ptrs_def)

lemma record_loop_closed:
  assumes "n_inst_max \<noteq> - 1"
  shows "record_loop cfg reg name func args n_inst_max i st =
     Some (record_all cfg name func args (live_ptrs reg (unat i) (unat n_inst_max)) st)"
proof (induction "Suc (unat n_inst_max) - unat i" arbitrary: i st)
  case 0
  then have "\<not> i \<le> n_inst_max" by (simp add: word_le_nat_alt)
  moreover from 0 have "live_ptrs reg (unat i) (unat n_inst_max) = []"
    by (simp add: live_ptrs_done)
  ultimately show ?case by (subst record_loop.simps) simp
next
  case (Suc k)
  then have le: "unat i \<le> unat n_inst_max" by simp
  then have wle: "i \<le> n_inst_max" by (simp add: word_le_nat_alt)
  have nx: "unat (i + 1) = Suc (unat i)" using le assms by (rule word32_succ)
  have k: "k = Suc (unat n_inst_max) - unat (i + 1)" using Suc(2) nx by simp
  note IH = Suc(1)[OF k]
  show ?case
    by (subst record_loop.simps)
       (simp add: wle IH nx live_ptrs_step[OF le] split: sum.splits)
qed

lemma scan_registry_closed:
  assumes "n_inst_max \<noteq> - 1"
  shows "scan_registry reg n_inst_max i inst n =
     Some (last (inst # live_ptrs reg (unat i) (unat n_inst_max)),
           n + of_nat (length (live_ptrs reg (unat i) (unat n_inst_max))))"
proof (induction "Suc (unat n_inst_max) - unat i" arbitrary: i inst n)
  case 0
  then have "\<not> i \<le> n_inst_max" by (simp add: word_le_nat_alt)
  moreover from 0 have "live_ptrs reg (unat i) (unat n_inst_max) = []"
    by (simp add: live_ptrs_done)
  ultimately show ?case by (subst scan_registry.simps) simp
next
  case (Suc k)
  then have le: "unat i \<le> unat n_inst_max" by simp
  then have wle: "i \<le> n_inst_max" by (simp add: word_le_nat_alt)
  have nx: "unat (i + 1) = Suc (unat i)" using le assms by (rule word32_succ)
  have k: "k = Suc (unat n_inst_max) - unat (i + 1)" using Suc(2) nx by simp
  note IH = Suc(1)[OF k]
  show ?case
    by (subst scan_registry.simps)
       (simp add: wle IH nx live_ptrs_step[OF le])
qed

lemma scan_registry_returns:
  assumes "scan_registry reg n_inst_max i inst n = Some r"
  shows "n_inst_max \<noteq> - 1"
proof (rule scan_registry.raw_induct[where P = "\<lambda>reg n_max i inst n r. n_max \<noteq> - 1", OF _ assms])
  fix scan reg n_inst_max i inst n and r :: "ptr \<times> 32 word"
  assume IH: "\<And>reg n_inst_max i inst n r. scan reg n_inst_max i inst n = Some r \<Longrightarrow> n_inst_max \<noteq> - 1"
    and body: "(if i \<le> n_inst_max
        then if jit_registry_get_ptr reg i = 0
             then scan reg n_inst_max (i + 1) inst n
             else scan reg n_inst_max (i + 1) (jit_registry_get_ptr reg i) (n + 1)
        else Some (inst, n)) = Some r"
  show "n_inst_max \<noteq> - 1"
  proof (cases "i \<le> n_inst_max")
    case True
    with body IH show ?thesis by (auto split: if_splits)
  next
    case False
    then show ?thesis by auto
  qed
qed


lemma live_ptrs_highest:
  assumes "1 \<le> k" and "k \<le> n"
    and live: "jit_registry_get_ptr reg (of_nat k) \<noteq> 0"
    and above: "\<And>i. k < i \<Longrightarrow> i \<le> n \<Longrightarrow> jit_registry_get_ptr reg (of_nat i) = 0"
  shows "live_ptrs reg 1 n = live_ptrs reg 1 (k - 1) @ [jit_registry_get_ptr reg (of_nat k)]"
proof -
  from assms(2) obtain d where d: "Suc n = k + d"
    by (metis le_Suc_ex le_SucI)
  have "[1..<k + d] = [1..<k] @ [k..<k + d]"
    using assms(1) by (rule upt_add_eq_append)
  moreover have "[k..<Suc n] = k # [Suc k..<Suc n]"
    using assms(2) by (simp add: upt_conv_Cons)
  ultimately have split: "[1..<Suc n] = [1..<k] @ k # [Suc k..<Suc n]"
    using d by simp
  have tail: "filter (\<lambda>base. base \<noteq> 0)
      (map (\<lambda>k. jit_registry_get_ptr reg (of_nat k)) [Suc k..<Suc n]) = []"
    using above by (auto simp: filter_empty_conv)
  have pre: "[1..<Suc (k - 1)] = [1..<k]" using assms(1) by simp
  show ?thesis
    unfolding live_ptrs_def pre split using live tail by (simp del: upt_Suc)
qed

lemma length_live_ptrs: "length (live_ptrs reg 1 n) \<le> n"
  unfolding live_ptrs_def
  by (rule order_trans[OF length_filter_le]) simp

lemma of_nat_live_count:
  assumes "(n_inst_max :: 32 word) \<noteq> - 1"
  shows "unat (of_nat (length (live_ptrs reg 1 (unat n_inst_max))) :: 32 word) =
     length (live_ptrs reg 1 (unat n_inst_max))"
proof -
  have "length (live_ptrs reg 1 (unat n_inst_max)) < 2 ^ 32"
    using length_live_ptrs[of reg "unat n_inst_max"] not_max_unat[OF assms] by simp
  then show ?thesis by (simp add: unat_of_nat take_bit_nat_eq_self)
qed

subsection \<open>Uninitialized arguments\<close>

text \<open>
  C4. In the recorder (\<open>n_inst_actual\<close> is not 1), an argument with a JIT leaf whose
  handle is zero makes the call throw the uninitialized-argument error, and the state
  of the call is the one it started in: no callback was invoked, the backend is
  untouched.
\<close>

theorem uninitialized_argument_up_front:
  assumes "n_inst_actual \<noteq> 1" and "0 \<in> set (concat (map leaf_refs args))"
  shows "vcall_jit_record_impl cfg reg name n_inst_max n_inst_actual inst func self mask1 args w =
     Some (Inl Uninitialized_Argument, w)"
  using assms by (simp add: vcall_jit_record_impl_def collect_closed)

theorem uninitialized_argument_up_front_witness:
  "(2 :: 32 word) \<noteq> 1 \<and> 0 \<in> set (concat (map leaf_refs [Jit 3, Struct [Jit 0, Other]]))
   \<and> vcall_jit_record_impl (ex_config LLVM TJit) ex_registry ''f'' 4 2 40 ex_func 1 2
        [Jit 3, Struct [Jit 0, Other]] ex_world = Some (Inl Uninitialized_Argument, ex_world)"
  using uninitialized_argument_up_front [of 2 "[Jit 3, Struct [Jit 0, Other]]"
      "ex_config LLVM TJit" ex_registry "''f''" 4 40 ex_func 1 2 ex_world]
  by simp


subsection \<open>The scan of the registry\<close>

text \<open>
  C10. When \<open>k\<close> is the highest id with a live instance, the scan of the ids
  \<open>1, ..., n_inst_max\<close> ends with \<^verbatim>\<open>inst\<close> the instance registered at \<open>k\<close>, and the
  driver hands this pointer to \<^verbatim>\<open>vcall_jit_record_impl\<close>, whose fast path invokes the
  callback with it. (The scan returns when \<open>n_inst_max\<close> is not the largest 32-bit
  number.)
\<close>

theorem scan_remembers_highest:
  assumes fin: "jit_registry_get_max reg \<noteq> - 1"
    and k: "1 \<le> k" "k \<le> jit_registry_get_max reg"
    and live: "jit_registry_get_ptr reg k \<noteq> 0"
    and above: "\<forall>i. k < i \<and> i \<le> jit_registry_get_max reg \<longrightarrow> jit_registry_get_ptr reg i = 0"
  shows "\<exists>n_inst_actual.
      scan_registry reg (jit_registry_get_max reg) 1 0 0 =
        Some (jit_registry_get_ptr reg k, n_inst_actual)
      \<and> (var_lanes (jit w) self \<noteq> [] \<longrightarrow>
           vcall_jit_record cfg reg name func self args w =
             vcall_jit_record_impl cfg reg name (jit_registry_get_max reg) n_inst_actual
               (jit_registry_get_ptr reg k) func self (extract_mask cfg args)
               (map (placeholder cfg) args) w)"
proof -
  let ?n = "unat (jit_registry_get_max reg)"
  let ?live = "live_ptrs reg 1 ?n"
  have k1: "1 \<le> unat k" using k(1) by (simp add: word_le_nat_alt)
  have k2: "unat k \<le> ?n" using k(2) by (simp add: word_le_nat_alt)
  have ab: "jit_registry_get_ptr reg (of_nat i) = 0" if "unat k < i" "i \<le> ?n" for i
  proof -
    have i: "unat (of_nat i :: 32 word) = i"
      using that(2) unsigned_less[of "jit_registry_get_max reg", where ?'a = nat]
      by (simp add: unat_of_nat take_bit_nat_eq_self)
    then have "k < of_nat i \<and> of_nat i \<le> jit_registry_get_max reg"
      using that by (simp add: word_less_nat_alt word_le_nat_alt)
    with above show ?thesis by blast
  qed
  have decomp: "?live = live_ptrs reg 1 (unat k - 1) @ [jit_registry_get_ptr reg k]"
    using live_ptrs_highest[of "unat k" ?n reg] k1 k2 live ab by simp
  have scan: "scan_registry reg (jit_registry_get_max reg) 1 0 0 =
      Some (jit_registry_get_ptr reg k, of_nat (length ?live))"
    using scan_registry_closed[OF fin, of reg 1 0 0] decomp by simp
  have "unat (of_nat (length ?live) :: 32 word) = length ?live"
    by (rule of_nat_live_count[OF fin])
  moreover have "length ?live \<noteq> 0" using decomp by simp
  ultimately have nz: "(of_nat (length ?live) :: 32 word) \<noteq> 0"
    by (metis unat_0)
  show ?thesis
    using scan nz by (simp add: vcall_jit_record_def)
qed

theorem scan_remembers_highest_witness:
  "jit_registry_get_max ex_registry \<noteq> - 1 \<and> (1 :: 32 word) \<le> 4
   \<and> 4 \<le> jit_registry_get_max ex_registry
   \<and> jit_registry_get_ptr ex_registry 4 \<noteq> 0
   \<and> \<not> (\<exists>i. 4 < i \<and> i \<le> jit_registry_get_max ex_registry
             \<and> jit_registry_get_ptr ex_registry i \<noteq> 0)
   \<and> var_lanes (jit ex_world) 1 \<noteq> []
   \<and> (\<exists>n_inst_actual.
        scan_registry ex_registry (jit_registry_get_max ex_registry) 1 0 0 =
          Some (40, n_inst_actual)
        \<and> vcall_jit_record (ex_config LLVM TJit) ex_registry ''f'' ex_func 1 [Jit 3, Jit 2] ex_world =
            vcall_jit_record_impl (ex_config LLVM TJit) ex_registry ''f''
              (jit_registry_get_max ex_registry) n_inst_actual 40 ex_func 1
              (extract_mask (ex_config LLVM TJit) [Jit 3, Jit 2])
              (map (placeholder (ex_config LLVM TJit)) [Jit 3, Jit 2]) ex_world)"
proof -
  have h1: "jit_registry_get_max ex_registry \<noteq> - 1" by (simp add: ex_registry_def)
  have h2: "(1 :: 32 word) \<le> 4" by simp
  have h3: "4 \<le> jit_registry_get_max ex_registry" by (simp add: ex_registry_def)
  have h4: "jit_registry_get_ptr ex_registry 4 \<noteq> 0" by (simp add: ex_registry_def)
  have h5: "\<forall>i. 4 < i \<and> i \<le> jit_registry_get_max ex_registry \<longrightarrow>
      jit_registry_get_ptr ex_registry i = 0"
    by (auto simp: ex_registry_def)
  have h6: "var_lanes (jit ex_world) 1 \<noteq> []"
    by (simp add: ex_world_def ex_backend_def var_lanes_def)
  have p: "jit_registry_get_ptr ex_registry 4 = 40" by (simp add: ex_registry_def)
  from scan_remembers_highest [OF h1 h2 h3 h4 h5, of ex_world 1 "ex_config LLVM TJit" "''f''"
      ex_func "[Jit 3, Jit 2]"] h6
  have concl: "\<exists>n_inst_actual.
        scan_registry ex_registry (jit_registry_get_max ex_registry) 1 0 0 =
          Some (40, n_inst_actual)
        \<and> vcall_jit_record (ex_config LLVM TJit) ex_registry ''f'' ex_func 1 [Jit 3, Jit 2] ex_world =
            vcall_jit_record_impl (ex_config LLVM TJit) ex_registry ''f''
              (jit_registry_get_max ex_registry) n_inst_actual 40 ex_func 1
              (extract_mask (ex_config LLVM TJit) [Jit 3, Jit 2])
              (map (placeholder (ex_config LLVM TJit)) [Jit 3, Jit 2]) ex_world"
    unfolding p by blast
  have h5': "\<not> (\<exists>i. 4 < i \<and> i \<le> jit_registry_get_max ex_registry
      \<and> jit_registry_get_ptr ex_registry i \<noteq> 0)"
    using h5 by auto
  show ?thesis by (intro conjI) (rule h1 h2 h3 h4 h5' h6 concl)+
qed

subsection \<open>The degenerate call\<close>

text \<open>\<open>zero_val\<close> appends one variable of zero lanes per JIT leaf of the type and touches
  nothing else.\<close>

lemma zero_val_closed:
  "zero_val t n b =
     (fst (zero_val t n b),
      b\<lparr>variables := variables b @ replicate (count_leaves t) (replicate n 0)\<rparr>)
   \<and> has_type t (fst (zero_val t n b))
   \<and> leaf_refs (fst (zero_val t n b)) =
       [Suc (length (variables b))..<Suc (length (variables b)) + count_leaves t]"
  "zero_entries ts n b =
     (fst (zero_entries ts n b),
      b\<lparr>variables := variables b @ replicate (sum_list (map count_leaves ts)) (replicate n 0)\<rparr>)
   \<and> have_types ts (fst (zero_entries ts n b))
   \<and> concat (map leaf_refs (fst (zero_entries ts n b))) =
       [Suc (length (variables b))..<
          Suc (length (variables b)) + sum_list (map count_leaves ts)]"
proof (induction t n b and ts n b rule: zero_val_zero_entries.induct)
  case (1 ts n b)
  then show ?case by (cases "zero_entries ts n b") (simp del: upt_Suc)
next
  case (2 t n b)
  then show ?case by (cases "zero_val t n b") (simp del: upt_Suc)
next
  case (3 n b)
  then show ?case by (simp add: jit_var_new_def)
next
  case (4 ts n b)
  then show ?case by (cases "zero_entries ts n b") (simp del: upt_Suc)
next
  case (5 n b)
  then show ?case by simp
next
  case (6 n b)
  then show ?case by simp
next
  case (7 n b)
  then show ?case by simp
next
  case (8 t ts n b)
  obtain v b1 where z1: "zero_val t n b = (v, b1)" by (cases "zero_val t n b")
  obtain vs b2 where z2: "zero_entries ts n b1 = (vs, b2)" by (cases "zero_entries ts n b1")
  from 8(1) z1 have b1: "b1 = b\<lparr>variables := variables b @ replicate (count_leaves t) (replicate n 0)\<rparr>"
    and t1: "has_type t v"
    and l1: "leaf_refs v = [Suc (length (variables b))..<Suc (length (variables b)) + count_leaves t]"
    by (simp_all del: upt_Suc)
  from 8(2)[OF z1[symmetric]] z2
  have b2: "b2 = b1\<lparr>variables := variables b1 @ replicate (sum_list (map count_leaves ts)) (replicate n 0)\<rparr>"
    and t2: "have_types ts vs"
    and l2: "concat (map leaf_refs vs) = [Suc (length (variables b1))..<
          Suc (length (variables b1)) + sum_list (map count_leaves ts)]"
    by (simp_all del: upt_Suc)
  have len1: "length (variables b1) = length (variables b) + count_leaves t"
    by (simp add: b1)
  have up: "[Suc (length (variables b))..<Suc (length (variables b)) + count_leaves t] @
        [Suc (length (variables b1))..<Suc (length (variables b1)) + sum_list (map count_leaves ts)]
      = [Suc (length (variables b))..<
          Suc (length (variables b)) + (count_leaves t + sum_list (map count_leaves ts))]"
    unfolding len1
    by (metis add_Suc upt_add_eq_append le_add1 add.assoc)
  show ?case
    using z1 z2 t1 t2 l1 l2 up by (simp add: b1 b2 replicate_add del: upt_Suc)
qed

lemma var_lanes_fresh:
  assumes "Suc (length (variables b)) \<le> k" and "k < Suc (length (variables b)) + c"
  shows "var_lanes (b\<lparr>variables := variables b @ replicate c d\<rparr>) k = d"
  using assms by (cases k) (auto simp: var_lanes_def nth_append)

lemma no_live_ptrs:
  assumes "\<forall>i. 1 \<le> i \<and> i \<le> n_inst_max \<longrightarrow> jit_registry_get_ptr reg i = 0"
  shows "live_ptrs reg 1 (unat n_inst_max) = []"
proof -
  have "jit_registry_get_ptr reg (of_nat k) = 0" if "1 \<le> k" "k \<le> unat n_inst_max" for k
  proof -
    have "unat (of_nat k :: 32 word) = k"
      using that(2) unsigned_less[of n_inst_max, where ?'a = nat]
      by (simp add: unat_of_nat take_bit_nat_eq_self)
    then have "1 \<le> (of_nat k :: 32 word) \<and> of_nat k \<le> n_inst_max"
      using that by (simp add: word_le_nat_alt)
    with assms show ?thesis by blast
  qed
  then show ?thesis by (auto simp: live_ptrs_def filter_empty_conv)
qed

text \<open>
  C2, as the code has it. The driver tests the number of live instances and the number
  of lanes of the selector (\<^verbatim>\<open>self.size()\<close>), nothing else: when no implementation is
  registered or the selector has no lane, the call returns a zero-filled result with as
  many lanes as the selector has, the callback is not invoked, and no jump-table node
  (and no side effect) is added. (The scan returns when \<open>n_inst_max\<close> is not the
  largest 32-bit number.)
\<close>

theorem zero_result_without_recording:
  assumes fin: "jit_registry_get_max reg \<noteq> - 1"
    and none: "(\<forall>i. 1 \<le> i \<and> i \<le> jit_registry_get_max reg \<longrightarrow> jit_registry_get_ptr reg i = 0)
               \<or> var_lanes (jit w) self = []"
  shows "\<exists>z w'. vcall_jit_record cfg reg name func self args w = Some (Inr z, w')
     \<and> has_type (cfg_result cfg) z
     \<and> (\<forall>k \<in> set (leaf_refs z).
            var_lanes (jit w') k = replicate (length (var_lanes (jit w) self)) 0)
     \<and> calls w' = calls w
     \<and> vcall_nodes (jit w') = vcall_nodes (jit w)
     \<and> side_effects (jit w') = side_effects (jit w)"
proof -
  let ?size = "length (var_lanes (jit w) self)"
  let ?z = "fst (zero_val (cfg_result cfg) ?size (jit w))"
  let ?b = "(jit w)\<lparr>variables := variables (jit w) @
      replicate (count_leaves (cfg_result cfg)) (replicate ?size 0)\<rparr>"
  note zc = zero_val_closed(1)[of "cfg_result cfg" ?size "jit w"]
  obtain inst n where scan: "scan_registry reg (jit_registry_get_max reg) 1 0 0 = Some (inst, n)"
    and n: "n = of_nat (length (live_ptrs reg 1 (unat (jit_registry_get_max reg))))"
    using scan_registry_closed[OF fin, of reg 1 0 0] by simp
  have branch: "n = 0 \<or> ?size = 0"
    using none n no_live_ptrs[of "jit_registry_get_max reg" reg] by auto
  have run: "vcall_jit_record cfg reg name func self args w = Some (Inr ?z, w\<lparr>jit := ?b\<rparr>)"
    using scan branch zc
    by (cases "zero_val (cfg_result cfg) ?size (jit w)") (auto simp: vcall_jit_record_def)
  have lanes: "var_lanes ?b k = replicate ?size 0" if "k \<in> set (leaf_refs ?z)" for k
    using that zc by (intro var_lanes_fresh) (simp_all del: upt_Suc)
  show ?thesis
    using run zc lanes by (intro exI[of _ ?z] exI[of _ "w\<lparr>jit := ?b\<rparr>"]) simp
qed

theorem zero_result_without_recording_witness:
  "jit_registry_get_max ex_empty \<noteq> - 1
   \<and> \<not> (\<exists>i. 1 \<le> i \<and> i \<le> jit_registry_get_max ex_empty \<and> jit_registry_get_ptr ex_empty i \<noteq> 0)
   \<and> (\<exists>z w'. vcall_jit_record (ex_config LLVM TJit) ex_empty ''f'' ex_func 1 [Jit 3, Jit 2] ex_world
                 = Some (Inr z, w')
        \<and> has_type TJit z
        \<and> list_all (\<lambda>k. var_lanes (jit w') k = [0, 0, 0, 0]) (leaf_refs z)
        \<and> calls w' = [] \<and> vcall_nodes (jit w') = [])"
proof -
  have h1: "jit_registry_get_max ex_empty \<noteq> - 1" by (simp add: ex_empty_def)
  have h2: "(\<forall>i. 1 \<le> i \<and> i \<le> jit_registry_get_max ex_empty \<longrightarrow> jit_registry_get_ptr ex_empty i = 0)
      \<or> var_lanes (jit ex_world) 1 = []"
    by (simp add: ex_empty_def)
  have h2': "\<not> (\<exists>i. 1 \<le> i \<and> i \<le> jit_registry_get_max ex_empty \<and> jit_registry_get_ptr ex_empty i \<noteq> 0)"
    by (simp add: ex_empty_def)
  have s: "replicate (length (var_lanes (jit ex_world) 1)) 0 = [0, 0, 0, 0 :: int]"
    by (simp add: ex_world_def ex_backend_def var_lanes_def)
  have c: "cfg_result (ex_config LLVM TJit) = TJit" by (simp add: ex_config_def)
  have e: "calls ex_world = []" "vcall_nodes (jit ex_world) = []"
    by (simp_all add: ex_world_def ex_backend_def)
  from zero_result_without_recording [OF h1 h2, of "ex_config LLVM TJit" "''f''" ex_func "[Jit 3, Jit 2]"]
  have "\<exists>z w'. vcall_jit_record (ex_config LLVM TJit) ex_empty ''f'' ex_func 1 [Jit 3, Jit 2] ex_world
                 = Some (Inr z, w')
        \<and> has_type TJit z
        \<and> list_all (\<lambda>k. var_lanes (jit w') k = [0, 0, 0, 0]) (leaf_refs z)
        \<and> calls w' = [] \<and> vcall_nodes (jit w') = []"
    unfolding s c e list_all_iff by blast
  with h1 h2' show ?thesis by blast
qed

text \<open>
  C2, as stated, fails for an active mask that is false in every lane and for a
  selector whose lanes are all null: variable 4 has four zero lanes; with it as the mask
  (the last argument), and with it as the selector, the single live instance's callback
  is invoked through the fast path, and with it as the selector and three live instances
  a jump-table node for three instances is created.
\<close>

theorem null_selector_counterexample:
  "var_lanes (jit ex_world) 4 = [0, 0, 0, 0]
   \<and> extract_mask (ex_config LLVM TJit) [Jit 3, Jit 4] = 4
   \<and> map_option (calls \<circ> snd)
        (vcall_jit_record (ex_config LLVM TJit) ex_single ''f'' ex_func 1 [Jit 3, Jit 4] ex_world)
       = Some [(20, [Jit 3, Jit 6])]
   \<and> map_option (calls \<circ> snd)
        (vcall_jit_record (ex_config LLVM TJit) ex_single ''f'' ex_func 4 [Jit 3, Jit 2] ex_world)
       = Some [(20, [Jit 3, Jit 6])]
   \<and> map_option (map node_n_inst \<circ> vcall_nodes \<circ> jit \<circ> snd)
        (vcall_jit_record (ex_config LLVM TJit) ex_registry ''f'' ex_func 4 [Jit 3, Jit 2] ex_world)
       = Some [3]"
  by code_simp

subsection \<open>One iteration of the recorder\<close>

lemmas jit_ops = jit_prefix_push_def jit_prefix_pop_def jit_flag_def jit_set_flag_def
  jit_var_new_stmt_def jit_var_new_def jit_var_mask_push_def jit_var_mask_pop_def
  jit_side_effects_scheduled_def jit_side_effects_rollback_def


lemma only_schedulesD:
  assumes "only_schedules func" and "func inst args b = (r, b')"
  shows "take (length (side_effects b)) (side_effects b') = side_effects b"
  using assms unfolding only_schedules_def by (metis snd_conv)

lemma returns_typeD:
  assumes "returns_type t func" and "func inst args b = (Inr v, b')"
  shows "has_type t v"
  using assms unfolding returns_type_def by (metis fst_conv)

text \<open>What one iteration leaves behind when it succeeds.\<close>

lemma record_instance_Inr:
  assumes "record_instance cfg name func args base st = Inr st'"
  shows "rs_j st' = rs_j st + 1"
    and "unat (rs_j st) < length (rs_se_count st)"
    and "rs_se_count st' = (rs_se_count st)
           [unat (rs_j st) := jit_side_effects_scheduled (jit (rs_world st'))]"
    and "postpone_side_effects (jit (rs_world st')) = postpone_side_effects (jit (rs_world st))"
  using assms
  by (auto simp: record_instance_def Let_def invoke_def jit_ops
      split: if_splits prod.splits sum.splits)


lemma record_instance_Inr_effects:
  assumes "record_instance cfg name func args base st = Inr st'" and "only_schedules func"
  shows "take (length (side_effects (jit (rs_world st)))) (side_effects (jit (rs_world st'))) =
     side_effects (jit (rs_world st))"
  using assms(1)
  by (auto simp: record_instance_def Let_def invoke_def jit_ops
      dest!: only_schedulesD[OF assms(2)] split: if_splits prod.splits sum.splits)





subsection \<open>An exception in the recorder\<close>

lemma word32_succ_less:
  assumes "unat (j :: 32 word) < n" and "n < 2 ^ 32"
  shows "unat (j + 1) = Suc (unat j)"
  using assms by (simp add: unat_word_ariths)

lemma prefix_length:
  assumes "take (length xs) ys = xs"
  shows "length xs \<le> length ys"
  using arg_cong[OF assms, of length] by simp






subsection \<open>A recording that succeeds\<close>

lemma has_type_leaves:
  "has_type t v \<Longrightarrow> length (leaf_refs v) = count_leaves t"
  "have_types ts vs \<Longrightarrow> length (concat (map leaf_refs vs)) = sum_list (map count_leaves ts)"
  by (induction t v and ts vs rule: has_type_have_types.induct) auto

lemma record_instance_Inr_out:
  assumes "record_instance cfg name func args base st = Inr st'"
    and "cfg_result cfg = TNullptr \<or> returns_type (cfg_result cfg) func"
  shows "length (rs_out_all st') = length (rs_out_all st) +
     (if cfg_result cfg = TNullptr then 0 else count_leaves (cfg_result cfg))"
  using assms
  by (auto simp: record_instance_def Let_def invoke_def collect_closed has_type_leaves
      dest!: returns_typeD split: if_splits prod.splits sum.splits)

lemma record_all_Inr_out:
  assumes "cfg_result cfg = TNullptr \<or> returns_type (cfg_result cfg) func"
    and "record_all cfg name func args bases st = Inr st'"
  shows "length (rs_out_all st') = length (rs_out_all st) +
     length bases * (if cfg_result cfg = TNullptr then 0 else count_leaves (cfg_result cfg))"
  using assms(2)
proof (induction bases arbitrary: st)
  case Nil
  then show ?case by simp
next
  case (Cons base bases)
  then obtain st1 where s1: "record_instance cfg name func args base st = Inr st1"
    and rest: "record_all cfg name func args bases st1 = Inr st'"
    by (auto split: sum.splits)
  show ?case
    using Cons.IH[OF rest] record_instance_Inr_out[OF s1 assms(1)] by simp
qed

lemma record_all_Inr_table:
  assumes "record_all cfg name func args bases st = Inr st'"
    and "unat (rs_j st) \<le> length (rs_se_count st)" and "length (rs_se_count st) < 2 ^ 32"
  shows "length (rs_se_count st') = length (rs_se_count st)
    \<and> unat (rs_j st') = unat (rs_j st) + length bases
    \<and> unat (rs_j st) + length bases \<le> length (rs_se_count st)
    \<and> (\<forall>k < unat (rs_j st). rs_se_count st' ! k = rs_se_count st ! k)
    \<and> (\<forall>i < length bases. \<exists>st_i.
          record_all cfg name func args (take (Suc i) bases) st = Inr st_i
          \<and> rs_se_count st' ! (unat (rs_j st) + i) =
              jit_side_effects_scheduled (jit (rs_world st_i)))"
  using assms
proof (induction bases arbitrary: st)
  case Nil
  then show ?case by simp
next
  case (Cons base bases)
  then obtain st1 where s1: "record_instance cfg name func args base st = Inr st1"
    and rest: "record_all cfg name func args bases st1 = Inr st'"
    by (auto split: sum.splits)
  note step = record_instance_Inr[OF s1]
  have j1: "unat (rs_j st1) = Suc (unat (rs_j st))"
    using step(1) word32_succ_less[OF step(2) Cons.prems(3)] by simp
  have l1: "length (rs_se_count st1) = length (rs_se_count st)"
    using step(3) by simp
  have IH: "length (rs_se_count st') = length (rs_se_count st1)
    \<and> unat (rs_j st') = unat (rs_j st1) + length bases
    \<and> unat (rs_j st1) + length bases \<le> length (rs_se_count st1)
    \<and> (\<forall>k < unat (rs_j st1). rs_se_count st' ! k = rs_se_count st1 ! k)
    \<and> (\<forall>i < length bases. \<exists>st_i.
          record_all cfg name func args (take (Suc i) bases) st1 = Inr st_i
          \<and> rs_se_count st' ! (unat (rs_j st1) + i) =
              jit_side_effects_scheduled (jit (rs_world st_i)))"
    using Cons.IH[OF rest] j1 l1 step(2) Cons.prems(3) by simp
  have old: "rs_se_count st' ! k = rs_se_count st ! k" if "k < unat (rs_j st)" for k
    using IH that j1 step(3) by simp
  have entries: "\<exists>st_i. record_all cfg name func args (take (Suc i) (base # bases)) st = Inr st_i
          \<and> rs_se_count st' ! (unat (rs_j st) + i) =
              jit_side_effects_scheduled (jit (rs_world st_i))"
    if "i < length (base # bases)" for i
  proof (cases i)
    case 0
    have "rs_se_count st' ! unat (rs_j st) = rs_se_count st1 ! unat (rs_j st)"
      using IH j1 by simp
    also have "\<dots> = jit_side_effects_scheduled (jit (rs_world st1))"
      using step(2,3) by simp
    finally show ?thesis using 0 s1 by simp
  next
    case (Suc i')
    with that have "i' < length bases" by simp
    with IH obtain st_i where
      "record_all cfg name func args (take (Suc i') bases) st1 = Inr st_i"
      "rs_se_count st' ! (unat (rs_j st1) + i') = jit_side_effects_scheduled (jit (rs_world st_i))"
      by blast
    then show ?thesis using Suc s1 j1 by simp
  qed
  show ?case using IH j1 l1 old entries by simp
qed

lemma record_all_Inr_sorted:
  assumes "only_schedules func"
    and "record_all cfg name func args bases st = Inr st'"
    and "length (rs_se_count st) < 2 ^ 32"
    and "sorted (take (unat (rs_j st)) (rs_se_count st))"
    and "\<forall>x \<in> set (take (unat (rs_j st)) (rs_se_count st)).
           x \<le> jit_side_effects_scheduled (jit (rs_world st))"
  shows "sorted (take (unat (rs_j st')) (rs_se_count st'))"
  using assms(2-)
proof (induction bases arbitrary: st)
  case Nil
  then show ?case by simp
next
  case (Cons base bases)
  then obtain st1 where s1: "record_instance cfg name func args base st = Inr st1"
    and rest: "record_all cfg name func args bases st1 = Inr st'"
    by (auto split: sum.splits)
  note step = record_instance_Inr[OF s1]
  let ?s = "jit_side_effects_scheduled (jit (rs_world st))"
  let ?s1 = "jit_side_effects_scheduled (jit (rs_world st1))"
  have mono: "?s \<le> ?s1"
    using prefix_length[OF record_instance_Inr_effects[OF s1 assms(1)]]
    by (simp add: jit_side_effects_scheduled_def)
  have j1: "unat (rs_j st1) = Suc (unat (rs_j st))"
    using step(1) word32_succ_less[OF step(2) Cons.prems(2)] by simp
  have tk: "take (unat (rs_j st1)) (rs_se_count st1) = take (unat (rs_j st)) (rs_se_count st) @ [?s1]"
    using step(2,3) j1 by (simp add: take_Suc_conv_app_nth)
  have a: "sorted (take (unat (rs_j st1)) (rs_se_count st1))"
    using Cons.prems(3,4) mono unfolding tk by (auto simp: sorted_append)
  have b: "\<forall>x \<in> set (take (unat (rs_j st1)) (rs_se_count st1)). x \<le> ?s1"
    using Cons.prems(4) mono unfolding tk by auto
  have c: "length (rs_se_count st1) < 2 ^ 32" using step(3) Cons.prems(2) by simp
  show ?case by (rule Cons.IH[OF rest c a b])
qed

lemma record_jump_table_Inr:
  assumes "record_jump_table cfg name n_inst_actual self mask1 indices_in st = (Inr result, w')"
  shows "n_inst_actual \<noteq> 0 \<and> vcall_nodes (jit w') \<noteq> []
    \<and> node_n_inst (last (vcall_nodes (jit w'))) = n_inst_actual
    \<and> node_in (last (vcall_nodes (jit w'))) = indices_in
    \<and> node_out_all (last (vcall_nodes (jit w'))) = rs_out_all st
    \<and> node_se_count (last (vcall_nodes (jit w'))) = rs_se_count st
    \<and> node_n_out (last (vcall_nodes (jit w'))) = length (rs_out_all st) div unat n_inst_actual"
  using assms
  by (auto simp: record_jump_table_def Let_def jit_var_mask_peek_def mask_and_def self_and_def
      jit_var_vcall_def jit_var_new_def split: if_splits prod.splits sum.splits list.splits)

lemma recorder_returns:
  assumes scan: "scan_registry reg n_inst_max 1 0 0 = Some (inst0, n_inst_actual)"
    and multi: "n_inst_actual \<noteq> 1"
    and run: "vcall_jit_record_impl cfg reg name n_inst_max n_inst_actual inst func self mask1 args w =
           Some (Inr result, w')"
  shows "\<exists>st indices_in.
      record_all cfg name func args (live_ptrs reg 1 (unat n_inst_max))
        (initial_state n_inst_actual w) = Inr st
      \<and> record_jump_table cfg name n_inst_actual self mask1 indices_in st = (Inr result, w')
      \<and> unat n_inst_actual = length (live_ptrs reg 1 (unat n_inst_max))
      \<and> length (rs_se_count (initial_state n_inst_actual w)) = Suc (unat n_inst_actual)"
proof -
  let ?live = "live_ptrs reg 1 (unat n_inst_max)"
  have fin: "n_inst_max \<noteq> - 1" using scan by (rule scan_registry_returns)
  have n: "n_inst_actual = of_nat (length ?live)"
    using scan scan_registry_closed[OF fin, of reg 1 0 0] by simp
  have un: "unat n_inst_actual = length ?live"
    unfolding n by (rule of_nat_live_count[OF fin])
  have "length ?live < 2 ^ 32 - 1"
    using length_live_ptrs[of reg "unat n_inst_max"] not_max_unat[OF fin] by simp
  then have suc: "unat (n_inst_actual + 1) = Suc (unat n_inst_actual)"
    using un by (simp add: unat_word_ariths)
  have loop: "record_loop cfg reg name func args n_inst_max 1 (initial_state n_inst_actual w) =
      Some (record_all cfg name func args ?live (initial_state n_inst_actual w))"
    using record_loop_closed[OF fin, of cfg reg name func args 1] by simp
  from run multi suc loop obtain st indices_in where
    "record_all cfg name func args ?live (initial_state n_inst_actual w) = Inr st"
    "record_jump_table cfg name n_inst_actual self mask1 indices_in st = (Inr result, w')"
    by (auto simp: vcall_jit_record_impl_def split: sum.splits if_splits prod.splits)
  moreover have "length (rs_se_count (initial_state n_inst_actual w)) = Suc (unat n_inst_actual)"
    using suc by (simp add: initial_state_def)
  ultimately show ?thesis using un by blast
qed

text \<open>
  C7. After a successful recording with several instances, where \<open>n_inst_actual\<close> is the
  count of the driver's scan, the side-effect count table handed to the backend has
  \<open>n_inst_actual + 1\<close> entries; entry 0 is the number of side effects scheduled before
  any implementation ran; entry \<open>i + 1\<close> is the number scheduled in the state reached
  when the branches of the first \<open>i + 1\<close> live instances have been recorded; and, for
  callbacks that only add side effects, the table is non-decreasing.
\<close>

theorem side_effect_count_table:
  assumes "only_schedules func"
    and "scan_registry reg n_inst_max 1 0 0 = Some (inst0, n_inst_actual)"
    and "n_inst_actual \<noteq> 1"
    and "vcall_jit_record_impl cfg reg name n_inst_max n_inst_actual inst func self mask1 args w =
           Some (Inr result, w')"
  shows "vcall_nodes (jit w') \<noteq> []
    \<and> length (node_se_count (last (vcall_nodes (jit w')))) = unat n_inst_actual + 1
    \<and> node_se_count (last (vcall_nodes (jit w'))) ! 0 = jit_side_effects_scheduled (jit w)
    \<and> (\<forall>i < unat n_inst_actual. \<exists>st_i.
          record_all cfg name func args (take (Suc i) (live_ptrs reg 1 (unat n_inst_max)))
            (initial_state n_inst_actual w) = Inr st_i
          \<and> node_se_count (last (vcall_nodes (jit w'))) ! Suc i =
              jit_side_effects_scheduled (jit (rs_world st_i)))
    \<and> sorted (node_se_count (last (vcall_nodes (jit w'))))"
proof -
  let ?live = "live_ptrs reg 1 (unat n_inst_max)"
  let ?st0 = "initial_state n_inst_actual w"
  from recorder_returns[OF assms(2,3,4)] obtain st indices_in where
    all: "record_all cfg name func args ?live ?st0 = Inr st"
    and fin: "record_jump_table cfg name n_inst_actual self mask1 indices_in st = (Inr result, w')"
    and un: "unat n_inst_actual = length ?live"
    and len: "length (rs_se_count ?st0) = Suc (unat n_inst_actual)"
    by blast
  have j0: "unat (rs_j ?st0) = 1" by (simp add: initial_state_def)
  have bound: "length (rs_se_count ?st0) < 2 ^ 32"
    using unsigned_less[of "n_inst_actual + 1", where ?'a = nat] by (simp add: initial_state_def)
  have e0: "rs_se_count ?st0 ! 0 = jit_side_effects_scheduled (jit w)"
    using len by (simp add: initial_state_def)
  have t1: "take (Suc 0) (rs_se_count ?st0) = [jit_side_effects_scheduled (jit w)]"
    using len e0 by (cases "rs_se_count ?st0") simp_all
  have w0: "rs_world ?st0 = w" by (simp add: initial_state_def)
  have table: "length (rs_se_count st) = length (rs_se_count ?st0)
    \<and> unat (rs_j st) = unat (rs_j ?st0) + length ?live
    \<and> unat (rs_j ?st0) + length ?live \<le> length (rs_se_count ?st0)
    \<and> (\<forall>k < unat (rs_j ?st0). rs_se_count st ! k = rs_se_count ?st0 ! k)
    \<and> (\<forall>i < length ?live. \<exists>st_i.
          record_all cfg name func args (take (Suc i) ?live) ?st0 = Inr st_i
          \<and> rs_se_count st ! (unat (rs_j ?st0) + i) =
              jit_side_effects_scheduled (jit (rs_world st_i)))"
    by (rule record_all_Inr_table[OF all _ bound]) (simp add: j0 len)
  have "sorted (take (unat (rs_j st)) (rs_se_count st))"
    by (rule record_all_Inr_sorted[OF assms(1) all bound]) (simp_all add: j0 t1 w0)
  moreover have "unat (rs_j st) = length (rs_se_count st)"
    using table j0 len un by simp
  ultimately have sorted: "sorted (rs_se_count st)" by simp
  note node = record_jump_table_Inr[OF fin]
  show ?thesis
    using node table sorted j0 len un e0 by simp
qed

theorem side_effect_count_table_witness:
  "only_schedules ex_func \<and> scan_registry ex_registry 5 1 0 0 = Some (40, 3) \<and> (3 :: 32 word) \<noteq> 1
   \<and> (\<exists>result w'.
         vcall_jit_record_impl (ex_config LLVM TJit) ex_registry ''f'' 5 3 40 ex_func 1 2
           [Jit 3, Jit 2] ex_world = Some (Inr result, w')
         \<and> node_se_count (last (vcall_nodes (jit w'))) = [1, 2, 3, 4]
         \<and> length (node_se_count (last (vcall_nodes (jit w')))) = unat (3 :: 32 word) + 1
         \<and> node_se_count (last (vcall_nodes (jit w'))) ! 0 = jit_side_effects_scheduled (jit ex_world)
         \<and> sorted (node_se_count (last (vcall_nodes (jit w')))))"
proof -
  have d: "only_schedules ex_func" by (simp add: only_schedules_def ex_func_def)
  have s: "scan_registry ex_registry 5 1 0 0 = Some (40, 3)" by code_simp
  have n: "(3 :: 32 word) \<noteq> 1" by simp
  have "map_option (\<lambda>(r, w). (isl r, map node_se_count (vcall_nodes (jit w))))
      (vcall_jit_record_impl (ex_config LLVM TJit) ex_registry ''f'' 5 3 40 ex_func 1 2
         [Jit 3, Jit 2] ex_world) = Some (False, [[1, 2, 3, 4]])"
    by code_simp
  then obtain r w' where run0: "vcall_jit_record_impl (ex_config LLVM TJit) ex_registry ''f'' 5 3 40
      ex_func 1 2 [Jit 3, Jit 2] ex_world = Some (r, w')"
    and r: "\<not> isl r" and c: "map node_se_count (vcall_nodes (jit w')) = [[1, 2, 3, 4]]"
    by auto
  from r obtain result where "r = Inr result" by (cases r) auto
  with run0 have run: "vcall_jit_record_impl (ex_config LLVM TJit) ex_registry ''f'' 5 3 40
      ex_func 1 2 [Jit 3, Jit 2] ex_world = Some (Inr result, w')" by simp
  from c have v: "node_se_count (last (vcall_nodes (jit w'))) = [1, 2, 3, 4]"
    by (cases "vcall_nodes (jit w')") auto
  note t = side_effect_count_table [OF d s n run]
  have "\<exists>result w'.
         vcall_jit_record_impl (ex_config LLVM TJit) ex_registry ''f'' 5 3 40 ex_func 1 2
           [Jit 3, Jit 2] ex_world = Some (Inr result, w')
         \<and> node_se_count (last (vcall_nodes (jit w'))) = [1, 2, 3, 4]
         \<and> length (node_se_count (last (vcall_nodes (jit w')))) = unat (3 :: 32 word) + 1
         \<and> node_se_count (last (vcall_nodes (jit w'))) ! 0 = jit_side_effects_scheduled (jit ex_world)
         \<and> sorted (node_se_count (last (vcall_nodes (jit w'))))"
    using run v t by blast
  with d s n show ?thesis by (simp only: simp_thms)
qed

text \<open>
  C8. After a successful recording with several instances, where \<open>n_inst_actual\<close> is the
  count of the driver's scan and every callback returns a value of the static type
  \<^verbatim>\<open>Result\<close>, the output index table has \<open>n_inst_actual\<close> times the number of JIT leaves
  of \<^verbatim>\<open>Result\<close> entries (none for a callback without return value), so its length is a
  multiple of \<open>n_inst_actual\<close>, and the output buffer handed to the backend has that
  length divided by \<open>n_inst_actual\<close> entries.
\<close>

theorem output_table_shape:
  assumes "cfg_result cfg = TNullptr \<or> returns_type (cfg_result cfg) func"
    and "scan_registry reg n_inst_max 1 0 0 = Some (inst0, n_inst_actual)"
    and "n_inst_actual \<noteq> 1"
    and "vcall_jit_record_impl cfg reg name n_inst_max n_inst_actual inst func self mask1 args w =
           Some (Inr result, w')"
  shows "vcall_nodes (jit w') \<noteq> []
    \<and> length (node_out_all (last (vcall_nodes (jit w')))) =
        unat n_inst_actual * (if cfg_result cfg = TNullptr then 0 else count_leaves (cfg_result cfg))
    \<and> unat n_inst_actual dvd length (node_out_all (last (vcall_nodes (jit w'))))
    \<and> node_n_out (last (vcall_nodes (jit w'))) =
        length (node_out_all (last (vcall_nodes (jit w')))) div unat n_inst_actual"
proof -
  let ?live = "live_ptrs reg 1 (unat n_inst_max)"
  let ?st0 = "initial_state n_inst_actual w"
  from recorder_returns[OF assms(2,3,4)] obtain st indices_in where
    all: "record_all cfg name func args ?live ?st0 = Inr st"
    and fin: "record_jump_table cfg name n_inst_actual self mask1 indices_in st = (Inr result, w')"
    and un: "unat n_inst_actual = length ?live"
    by blast
  have "length (rs_out_all st) = length (rs_out_all ?st0) + length ?live *
      (if cfg_result cfg = TNullptr then 0 else count_leaves (cfg_result cfg))"
    by (rule record_all_Inr_out[OF assms(1) all])
  then have len: "length (rs_out_all st) = unat n_inst_actual *
      (if cfg_result cfg = TNullptr then 0 else count_leaves (cfg_result cfg))"
    using un by (simp add: initial_state_def)
  note node = record_jump_table_Inr[OF fin]
  show ?thesis using node len by simp
qed

theorem output_table_shape_witness:
  "returns_type (cfg_result (ex_config LLVM TJit)) ex_func
   \<and> scan_registry ex_registry 5 1 0 0 = Some (40, 3) \<and> (3 :: 32 word) \<noteq> 1
   \<and> (\<exists>result w'.
         vcall_jit_record_impl (ex_config LLVM TJit) ex_registry ''f'' 5 3 40 ex_func 1 2
           [Jit 3, Jit 2] ex_world = Some (Inr result, w')
         \<and> node_out_all (last (vcall_nodes (jit w'))) = [6, 8, 10]
         \<and> unat (3 :: 32 word) dvd length (node_out_all (last (vcall_nodes (jit w'))))
         \<and> node_n_out (last (vcall_nodes (jit w'))) =
             length (node_out_all (last (vcall_nodes (jit w')))) div unat (3 :: 32 word))"
proof -
  have t: "returns_type (cfg_result (ex_config LLVM TJit)) ex_func"
    by (simp add: returns_type_def ex_func_def ex_config_def)
  then have d: "cfg_result (ex_config LLVM TJit) = TNullptr
      \<or> returns_type (cfg_result (ex_config LLVM TJit)) ex_func" ..
  have s: "scan_registry ex_registry 5 1 0 0 = Some (40, 3)" by code_simp
  have n: "(3 :: 32 word) \<noteq> 1" by simp
  have "map_option (\<lambda>(r, w). (isl r, map node_out_all (vcall_nodes (jit w))))
      (vcall_jit_record_impl (ex_config LLVM TJit) ex_registry ''f'' 5 3 40 ex_func 1 2
         [Jit 3, Jit 2] ex_world) = Some (False, [[6, 8, 10]])"
    by code_simp
  then obtain r w' where run0: "vcall_jit_record_impl (ex_config LLVM TJit) ex_registry ''f'' 5 3 40
      ex_func 1 2 [Jit 3, Jit 2] ex_world = Some (r, w')"
    and r: "\<not> isl r" and c: "map node_out_all (vcall_nodes (jit w')) = [[6, 8, 10]]"
    by auto
  from r obtain result where "r = Inr result" by (cases r) auto
  with run0 have run: "vcall_jit_record_impl (ex_config LLVM TJit) ex_registry ''f'' 5 3 40
      ex_func 1 2 [Jit 3, Jit 2] ex_world = Some (Inr result, w')" by simp
  from c have v: "node_out_all (last (vcall_nodes (jit w'))) = [6, 8, 10]"
    by (cases "vcall_nodes (jit w')") auto
  note o = output_table_shape [OF d s n run]
  have "\<exists>result w'.
         vcall_jit_record_impl (ex_config LLVM TJit) ex_registry ''f'' 5 3 40 ex_func 1 2
           [Jit 3, Jit 2] ex_world = Some (Inr result, w')
         \<and> node_out_all (last (vcall_nodes (jit w'))) = [6, 8, 10]
         \<and> unat (3 :: 32 word) dvd length (node_out_all (last (vcall_nodes (jit w'))))
         \<and> node_n_out (last (vcall_nodes (jit w'))) =
             length (node_out_all (last (vcall_nodes (jit w')))) div unat (3 :: 32 word)"
    using run v o by blast
  with t s n show ?thesis by (simp only: simp_thms)
qed

subsection \<open>The fast path\<close>










lemma select_lane_zero:
  assumes "\<forall>i. lane_at y i = 0" and "lane_at m i = 0"
    and "i < max (length m) (max (length x) (length y))"
  shows "map (\<lambda>i. if lane_at m i \<noteq> 0 then lane_at x i else lane_at y i)
        [0..<max (length m) (max (length x) (length y))] ! i = 0"
  using assms by (simp del: upt_Suc)









subsection \<open>What the recorder invokes the callbacks with\<close>

lemma record_instance_Inr_calls:
  assumes "record_instance cfg name func args base st = Inr st'"
  shows "calls (rs_world st') = calls (rs_world st) @
     [(base, if cfg_result cfg = TNullptr then set_masks cfg (Mask_Bool True) args else args)]"
  using assms
  by (auto simp: record_instance_def Let_def invoke_def
      split: if_splits prod.splits sum.splits)

lemma recorder_invocations:
  assumes "record_all cfg name func args bases st = Inr st'"
  shows "calls (rs_world st') = calls (rs_world st) @
     map (\<lambda>base. (base, if cfg_result cfg = TNullptr
                         then set_masks cfg (Mask_Bool True) args else args)) bases"
  using assms
proof (induction bases arbitrary: st)
  case Nil
  then show ?case by simp
next
  case (Cons base bases)
  then obtain st1 where s1: "record_instance cfg name func args base st = Inr st1"
    and rest: "record_all cfg name func args bases st1 = Inr st'"
    by (auto split: sum.splits)
  show ?case
    using Cons.IH[OF rest] record_instance_Inr_calls[OF s1] by simp
qed

text \<open>
  C3 holds for a callback without return value only. The branch for \<^verbatim>\<open>std::nullptr_t\<close>
  invokes \<^verbatim>\<open>func(base, (set_mask<Is, N>(true, args))...)\<close>; the branch for any other
  \<^verbatim>\<open>Result\<close> invokes \<^verbatim>\<open>func(base, args...)\<close>, the arguments as they are. At the call
  site of the example, where \<^verbatim>\<open>set_mask\<close> replaces the last argument and the last
  argument is the mask of variable 2 (false in its last lane): with a JIT array as
  \<^verbatim>\<open>Result\<close> all three invocations receive that mask unchanged; without return value
  they receive the literal \<^verbatim>\<open>true\<close> in its place.
\<close>

theorem non_void_branch_passes_arguments_unchanged:
  "set_masks (ex_config LLVM TJit) (Mask_Bool True) [Jit 3, Jit 2] = [Jit 3, Other]
   \<and> map_option (map snd \<circ> calls \<circ> snd)
        (vcall_jit_record_impl (ex_config LLVM TJit) ex_registry ''f'' 5 3 40 ex_func 1 2
           [Jit 3, Jit 2] ex_world)
       = Some [[Jit 3, Jit 2], [Jit 3, Jit 2], [Jit 3, Jit 2]]
   \<and> map_option (map snd \<circ> calls \<circ> snd)
        (vcall_jit_record_impl (ex_config LLVM TNullptr) ex_registry ''f'' 5 3 40 ex_func 1 2
           [Jit 3, Jit 2] ex_world)
       = Some [[Jit 3, Other], [Jit 3, Other], [Jit 3, Other]]"
  by code_simp

subsection \<open>Where the uninitialized-argument check happens\<close>






end
